theory Spec2Isabelle
  imports Complex_Main
begin

section \<open>Python exceptions\<close>

text \<open>
  The exception classes the script can meet, with the part of Python's class hierarchy
  that its two \<^verbatim>\<open>except\<close> clauses look at: \<^verbatim>\<open>ModuleNotFoundError\<close> is a subclass of
  \<^verbatim>\<open>ImportError\<close>; \<^verbatim>\<open>KeyboardInterrupt\<close> and \<^verbatim>\<open>SystemExit\<close> derive from
  \<^verbatim>\<open>BaseException\<close> but not from \<^verbatim>\<open>Exception\<close>.
\<close>

datatype exc_class =
    ImportError | ModuleNotFoundError | ZeroDivisionError | OverflowError | ValueError
  | OSError | FileNotFoundError | PermissionError | MemoryError
  | KeyboardInterrupt | SystemExit

datatype exn = Exn (exc_cls: exc_class) (exc_msg: string)

fun is_ImportError :: "exc_class \<Rightarrow> bool" where
  "is_ImportError ImportError = True"
| "is_ImportError ModuleNotFoundError = True"
| "is_ImportError _ = False"

fun is_Exception :: "exc_class \<Rightarrow> bool" where
  "is_Exception KeyboardInterrupt = False"
| "is_Exception SystemExit = False"
| "is_Exception _ = True"

section \<open>Python floats\<close>

text \<open>
  A Python float is an IEEE 754 binary64 number. Its finite values are rationals, and every
  operation returns the exact result rounded to 53 significant bits, ties to even, with the
  exponent bounded below by \<open>-1022\<close> (subnormal numbers share the spacing \<open>2 powi (-1074)\<close>).
  \<open>ilog2 n\<close> is the position of the leading bit of \<open>n\<close>, \<open>binade q\<close> the exponent \<open>e\<close> with
  \<open>2 powi e \<le> q < 2 powi (e + 1)\<close>.
\<close>

definition round_half_even :: "rat \<Rightarrow> int" where
  "round_half_even q =
     (let f = \<lfloor>q\<rfloor>; d = q - of_int f
      in if d < 1 / 2 then f else if 1 / 2 < d then f + 1 else if even f then f else f + 1)"

function ilog2 :: "int \<Rightarrow> int" where
  "ilog2 n = (if n \<le> 1 then 0 else 1 + ilog2 (n div 2))"
  by pat_completeness auto
termination
  by (relation "measure nat") auto

declare ilog2.simps [simp del]

definition binade :: "rat \<Rightarrow> int" where
  "binade q =
     (let (a, b) = quotient_of q; d = ilog2 a - ilog2 b
      in if 2 powi d \<le> q then d else d - 1)"

definition fl64 :: "rat \<Rightarrow> rat" where
  "fl64 q =
     (if q = 0 then 0
      else let e = max (binade \<bar>q\<bar>) (- 1022); u = 2 powi (e - 52)
           in sgn q * of_int (round_half_even (\<bar>q\<bar> / u)) * u)"

text \<open>
  \<^verbatim>\<open>a / b\<close> on two Python ints: the correctly rounded quotient, \<^verbatim>\<open>ZeroDivisionError\<close> for a
  zero divisor, \<^verbatim>\<open>OverflowError\<close> when the quotient is beyond the largest float.
\<close>

definition py_truediv :: "int \<Rightarrow> int \<Rightarrow> exn + rat" where
  "py_truediv a b =
     (if b = 0 then Inl (Exn ZeroDivisionError ''division by zero'')
      else let q = fl64 (of_int a / of_int b)
           in if 2 powi 1024 \<le> \<bar>q\<bar>
              then Inl (Exn OverflowError ''integer division result too large for a float'')
              else Inr q)"

text \<open>
  \<^verbatim>\<open>n * t\<close> for an int \<open>n\<close> and a float \<open>t\<close>: \<open>n\<close> is converted to a float first. (A product
  beyond the largest float would be \<^verbatim>\<open>inf\<close>; the products of the script are at most 255.)
\<close>

definition py_mul_int_float :: "int \<Rightarrow> rat \<Rightarrow> rat" where
  "py_mul_int_float n t = fl64 (fl64 (of_int n) * t)"

text \<open>\<^verbatim>\<open>int(f)\<close> truncates towards zero.\<close>

definition py_int :: "rat \<Rightarrow> int" where
  "py_int f = (if 0 \<le> f then \<lfloor>f\<rfloor> else \<lceil>f\<rceil>)"

text \<open>\<^verbatim>\<open>range(n)\<close> is \<open>0, \<dots>, n - 1\<close>, empty for \<open>n \<le> 0\<close>.\<close>

definition py_range :: "int \<Rightarrow> int list" where
  "py_range n = [0..n - 1]"

section \<open>Pillow images\<close>

text \<open>
  An image has a mode, a size and its pixels in row-major order, as \<^verbatim>\<open>putdata\<close> and
  \<^verbatim>\<open>getdata\<close> show them: pixel \<open>(x, y)\<close> is entry \<open>y * width + x\<close>. A pixel of an \<^verbatim>\<open>L\<close> image
  is one byte, a pixel of an \<^verbatim>\<open>RGB\<close> image three.
\<close>

type_synonym rgb = "int \<times> int \<times> int"

record 'p image =
  im_mode :: string
  im_width :: int
  im_height :: int
  im_data :: "'p list"

definition red :: "rgb \<Rightarrow> int" where "red p = fst p"
definition green :: "rgb \<Rightarrow> int" where "green p = fst (snd p)"
definition blue :: "rgb \<Rightarrow> int" where "blue p = snd (snd p)"

text \<open>A colour argument is a 3-tuple or a 4-tuple of ints.\<close>

datatype color = RGB int int int | RGBA int int int int

definition clip8 :: "int \<Rightarrow> int" where
  "clip8 v = (if v \<le> 0 then 0 else if 255 \<le> v then 255 else v)"

text \<open>
  The ink of a colour on an \<^verbatim>\<open>RGB\<close> image: each of the three channels clipped to a byte.
  The fourth component of a 4-tuple goes to the padding byte of the pixel, which is no
  part of the picture.
\<close>

fun getink :: "color \<Rightarrow> rgb" where
  "getink (RGB r g b) = (clip8 r, clip8 g, clip8 b)"
| "getink (RGBA r g b a) = (clip8 r, clip8 g, clip8 b)"

text \<open>
  \<^verbatim>\<open>Image.new(mode, (w, h), fill)\<close> refuses a negative size. The upper limits of the library
  (a size that does not fit a C int, a width above \<open>INT_MAX / 4 - 1\<close>, memory that runs out)
  are left out: where the library serves a size, this is the image it returns.
\<close>

definition Image_new :: "string \<Rightarrow> int \<times> int \<Rightarrow> 'p \<Rightarrow> exn + 'p image" where
  "Image_new mode sz fill =
     (case sz of (w, h) \<Rightarrow>
        if w < 0 \<or> h < 0 then Inl (Exn ValueError ''Width and height must be >= 0'')
        else Inr \<lparr>im_mode = mode, im_width = w, im_height = h,
                  im_data = replicate (nat (w * h)) fill\<rparr>)"

text \<open>
  \<^verbatim>\<open>mask.putdata(xs)\<close> on an \<^verbatim>\<open>L\<close> image copies the values, clipped to a byte, over the first
  pixels of the image. The script always passes one value for each pixel.
\<close>

definition putdata :: "int image \<Rightarrow> int list \<Rightarrow> int image" where
  "putdata im xs =
     im\<lparr>im_data := map clip8 (take (length (im_data im)) xs) @ drop (length xs) (im_data im)\<rparr>"

text \<open>
  \<^verbatim>\<open>base.paste(top, (0, 0), mask)\<close> with an \<^verbatim>\<open>L\<close> mask blends every byte of the two images:
  \<^verbatim>\<open>DIV255(in1 * (255 - mask) + in2 * mask)\<close>, where \<^verbatim>\<open>DIV255(a)\<close> is
  \<^verbatim>\<open>tmp = a + 128, ((tmp >> 8) + tmp) >> 8\<close>. Images of different sizes are refused.
\<close>

definition div255 :: "int \<Rightarrow> int" where
  "div255 a = (let tmp = a + 128 in ((tmp div 256) + tmp) div 256)"

definition blend :: "int \<Rightarrow> int \<Rightarrow> int \<Rightarrow> int" where
  "blend m in1 in2 = div255 (in1 * (255 - m) + in2 * m)"

definition blend_rgb :: "int \<Rightarrow> rgb \<Rightarrow> rgb \<Rightarrow> rgb" where
  "blend_rgb m p q =
     (blend m (red p) (red q), blend m (green p) (green q), blend m (blue p) (blue q))"

definition paste :: "rgb image \<Rightarrow> rgb image \<Rightarrow> int image \<Rightarrow> exn + rgb image" where
  "paste base top' mask' =
     (if (im_width top', im_height top') \<noteq> (im_width base, im_height base)
         \<or> (im_width mask', im_height mask') \<noteq> (im_width base, im_height base)
      then Inl (Exn ValueError ''images do not match'')
      else Inr (base\<lparr>im_data :=
                  map (\<lambda>(m, p, q). blend_rgb m p q)
                    (zip (im_data mask') (zip (im_data base) (im_data top')))\<rparr>))"

text \<open>Reading a pixel, for the statements below: \<open>None\<close> outside the image.\<close>

definition pixel_at :: "'p image \<Rightarrow> int \<times> int \<Rightarrow> 'p option" where
  "pixel_at im xy =
     (case xy of (x, y) \<Rightarrow>
        if 0 \<le> x \<and> x < im_width im \<and> 0 \<le> y \<and> y < im_height im
           \<and> nat (y * im_width im + x) < length (im_data im)
        then Some (im_data im ! nat (y * im_width im + x)) else None)"

section \<open>The gradient\<close>

text \<open>
  The loop of \<^verbatim>\<open>create_gradient\<close> over the rows \<open>ys\<close> still to do:
  \<^verbatim>\<open>mask_data.extend([int(255 * (y / height))] * width)\<close>.
\<close>

fun mask_rows :: "int \<Rightarrow> int \<Rightarrow> int list \<Rightarrow> int list \<Rightarrow> exn + int list" where
  "mask_rows width height [] mask_data = Inr mask_data"
| "mask_rows width height (y # ys) mask_data =
     (case py_truediv y height of
        Inl e \<Rightarrow> Inl e
      | Inr t \<Rightarrow>
          mask_rows width height ys
            (mask_data @ replicate (nat width) (py_int (py_mul_int_float 255 t))))"

definition create_gradient :: "int \<Rightarrow> int \<Rightarrow> color \<Rightarrow> color \<Rightarrow> exn + rgb image" where
  "create_gradient width height color1 color2 =
     (case Image_new ''RGB'' (width, height) (getink color1) of
        Inl e \<Rightarrow> Inl e
      | Inr base \<Rightarrow>
     (case Image_new ''RGB'' (width, height) (getink color2) of
        Inl e \<Rightarrow> Inl e
      | Inr top' \<Rightarrow>
     (case Image_new ''L'' (width, height) (0::int) of
        Inl e \<Rightarrow> Inl e
      | Inr mask' \<Rightarrow>
     (case mask_rows width height (py_range height) [] of
        Inl e \<Rightarrow> Inl e
      | Inr mask_data \<Rightarrow> paste base top' (putdata mask' mask_data)))))"

text \<open>The mask value of row \<open>y\<close>, when the division succeeds.\<close>

definition mask_value :: "int \<Rightarrow> int \<Rightarrow> int" where
  "mask_value y height = py_int (py_mul_int_float 255 (fl64 (of_int y / of_int height)))"


section \<open>Drawing\<close>

text \<open>
  \<^verbatim>\<open>ImageDraw.Draw(img)\<close> on an \<^verbatim>\<open>RGB\<close> image draws without blending: a shape overwrites the
  pixels it covers with its ink. Which pixels an ellipse or a slanted line covers is the
  business of the library's rasteriser, a parameter of everything below.
\<close>

type_synonym point = "int \<times> int"

record rasteriser =
  ellipse_area :: "int \<times> int \<times> int \<times> int \<Rightarrow> point set"
  ellipse_ring :: "int \<times> int \<times> int \<times> int \<Rightarrow> int \<Rightarrow> point set"
  slanted_line :: "point \<Rightarrow> point \<Rightarrow> int \<Rightarrow> point set"

text \<open>
  An axis-parallel segment is drawn by the wide-line routine as the closed rectangle with
  corners \<^verbatim>\<open>(x0 - dxmin, y0 + dymax)\<close>, \<^verbatim>\<open>(x1 - dxmin, y1 + dymax)\<close>,
  \<^verbatim>\<open>(x1 + dxmax, y1 - dymin)\<close>, \<^verbatim>\<open>(x0 + dxmax, y0 - dymin)\<close>, where the offsets across the
  segment are \<^verbatim>\<open>(width - 1) / 2.0\<close> rounded down and up, with the sign of the direction;
  a segment of width at most 1, or of length 0, covers the pixels between its end points.
\<close>

definition line_area :: "rasteriser \<Rightarrow> point \<Rightarrow> point \<Rightarrow> int \<Rightarrow> point set" where
  "line_area R p q width =
     (case (p, q) of ((x0, y0), (x1, y1)) \<Rightarrow>
        if y0 = y1 then
          (if width \<le> 1 \<or> x0 = x1 then {min x0 x1..max x0 x1} \<times> {y0}
           else let dymin = sgn (x1 - x0) * ((width - 1) div 2);
                    dymax = sgn (x1 - x0) * (width div 2)
                in {min x0 x1..max x0 x1}
                     \<times> {min (y0 + dymax) (y0 - dymin)..max (y0 + dymax) (y0 - dymin)})
        else if x0 = x1 then
          (if width \<le> 1 then {x0} \<times> {min y0 y1..max y0 y1}
           else let dxmin = sgn (y1 - y0) * ((width - 1) div 2);
                    dxmax = sgn (y1 - y0) * (width div 2)
                in {min (x0 - dxmin) (x0 + dxmax)..max (x0 - dxmin) (x0 + dxmax)}
                     \<times> {min y0 y1..max y0 y1})
        else slanted_line R p q width)"

text \<open>Overwriting the pixels of an area that lie on the canvas.\<close>

definition paint :: "rgb image \<Rightarrow> point set \<Rightarrow> rgb \<Rightarrow> rgb image" where
  "paint im A ink =
     im\<lparr>im_data :=
          map (\<lambda>i. if (int i mod im_width im, int i div im_width im) \<in> A then ink
                    else im_data im ! i)
            [0..<length (im_data im)]\<rparr>"

text \<open>
  The calls of the script: \<^verbatim>\<open>draw.ellipse([x0, y0, x1, y1], fill, outline, width)\<close> and
  \<^verbatim>\<open>draw.line([p, q], fill, width)\<close>. An ellipse is filled first, when it has a fill, and
  outlined after, when it has an outline whose ink (all four bytes of it) differs from the
  fill's and the width is not 0; with neither, it is outlined in the default white.
  A line without a fill takes the default ink.
\<close>

datatype draw_call =
    Ellipse "int \<times> int \<times> int \<times> int" "color option" "color option" int
  | Line point point "color option" int

fun ink32 :: "color \<Rightarrow> int \<times> int \<times> int \<times> int" where
  "ink32 (RGB r g b) = (clip8 r, clip8 g, clip8 b, 255)"
| "ink32 (RGBA r g b a) = (clip8 r, clip8 g, clip8 b, clip8 a)"

definition default_ink :: rgb where
  "default_ink = (255, 255, 255)"

fun draw :: "rasteriser \<Rightarrow> rgb image \<Rightarrow> draw_call \<Rightarrow> rgb image" where
  "draw R im (Ellipse box None None width) =
     (if width \<noteq> 0 then paint im (ellipse_ring R box width) default_ink else im)"
| "draw R im (Ellipse box None (Some outline) width) =
     (if width \<noteq> 0 then paint im (ellipse_ring R box width) (getink outline) else im)"
| "draw R im (Ellipse box (Some fill) None width) =
     paint im (ellipse_area R box) (getink fill)"
| "draw R im (Ellipse box (Some fill) (Some outline) width) =
     (let im' = paint im (ellipse_area R box) (getink fill)
      in if ink32 outline \<noteq> ink32 fill \<and> width \<noteq> 0
         then paint im' (ellipse_ring R box width) (getink outline) else im')"
| "draw R im (Line p q None width) = paint im (line_area R p q width) default_ink"
| "draw R im (Line p q (Some fill) width) = paint im (line_area R p q width) (getink fill)"

section \<open>The icon\<close>

definition icon_size :: int where "icon_size = 1024"
definition color1 :: color where "color1 = RGB 0 122 255"
definition color2 :: color where "color2 = RGB 88 86 214"
definition center :: int where "center = icon_size div 2"
definition circle_radius :: int where "circle_radius = icon_size div 3"
definition inner_radius :: int where "inner_radius = circle_radius div 2"
definition corner_size :: int where "corner_size = 60"
definition corner_width :: int where "corner_width = 15"
definition corner_offset :: int where "corner_offset = circle_radius + 80"

definition lens_disc :: draw_call where
  "lens_disc =
     Ellipse (center - circle_radius, center - circle_radius,
              center + circle_radius, center + circle_radius)
       (Some (RGBA 255 255 255 230)) (Some (RGB 240 240 240)) 1"

definition lens_ring :: draw_call where
  "lens_ring =
     Ellipse (center - inner_radius, center - inner_radius,
              center + inner_radius, center + inner_radius)
       None (Some (RGB 0 122 255)) 20"

definition top_left :: "draw_call list" where
  "top_left =
     [Line (center - corner_offset, center - corner_offset)
           (center - corner_offset + corner_size, center - corner_offset)
           (Some (RGB 255 255 255)) corner_width,
      Line (center - corner_offset, center - corner_offset)
           (center - corner_offset, center - corner_offset + corner_size)
           (Some (RGB 255 255 255)) corner_width]"

definition top_right :: "draw_call list" where
  "top_right =
     [Line (center + corner_offset, center - corner_offset)
           (center + corner_offset - corner_size, center - corner_offset)
           (Some (RGB 255 255 255)) corner_width,
      Line (center + corner_offset, center - corner_offset)
           (center + corner_offset, center - corner_offset + corner_size)
           (Some (RGB 255 255 255)) corner_width]"

definition bottom_left :: "draw_call list" where
  "bottom_left =
     [Line (center - corner_offset, center + corner_offset)
           (center - corner_offset + corner_size, center + corner_offset)
           (Some (RGB 255 255 255)) corner_width,
      Line (center - corner_offset, center + corner_offset)
           (center - corner_offset, center + corner_offset - corner_size)
           (Some (RGB 255 255 255)) corner_width]"

definition bottom_right :: "draw_call list" where
  "bottom_right =
     [Line (center + corner_offset, center + corner_offset)
           (center + corner_offset - corner_size, center + corner_offset)
           (Some (RGB 255 255 255)) corner_width,
      Line (center + corner_offset, center + corner_offset)
           (center + corner_offset, center + corner_offset - corner_size)
           (Some (RGB 255 255 255)) corner_width]"

definition lens_calls :: "draw_call list" where
  "lens_calls = [lens_disc, lens_ring]"

definition corner_calls :: "draw_call list" where
  "corner_calls = top_left @ top_right @ bottom_left @ bottom_right"

text \<open>The pixels a call covers, and those a list of calls covers.\<close>

fun call_area :: "rasteriser \<Rightarrow> draw_call \<Rightarrow> point set" where
  "call_area R (Line p q fill width) = line_area R p q width"
| "call_area R (Ellipse box fill outline width) = ellipse_area R box \<union> ellipse_ring R box width"

definition painted :: "rasteriser \<Rightarrow> draw_call list \<Rightarrow> point set" where
  "painted R calls = (\<Union>c\<in>set calls. call_area R c)"

section \<open>The script\<close>

text \<open>
  What the run depends on and what it leaves behind: whether Pillow can be imported, what
  \<^verbatim>\<open>img.save\<close> raises (nothing when the directory is there and can be written), the files,
  each PNG kept as the raster it decodes to, and what has been printed.
\<close>

datatype event = Print string | Traceback exn

record world =
  pil_installed :: bool
  save_fault :: "exn option"
  files :: "string \<Rightarrow> rgb image option"
  console :: "event list"

definition print :: "string \<Rightarrow> world \<Rightarrow> world" where
  "print s w = w\<lparr>console := console w @ [Print s]\<rparr>"

definition output_path :: string where
  "output_path = ''FaceRecognitionClient/Assets.xcassets/AppIcon.appiconset/AppIcon.png''"

definition check_mark :: string where
  "check_mark = [CHR 0xE2, CHR 0x9C, CHR 0x85]"

definition cross_mark :: string where
  "cross_mark = [CHR 0xE2, CHR 0x9D, CHR 0x8C]"

definition create_app_icon :: "rasteriser \<Rightarrow> world \<Rightarrow> world \<times> (exn + unit)" where
  "create_app_icon R w =
     (let w = print ''Creating gradient background...'' w
      in case create_gradient icon_size icon_size color1 color2 of
           Inl e \<Rightarrow> (w, Inl e)
         | Inr img \<Rightarrow>
             let w = print ''Drawing camera lens circle...'' w;
                 img = foldl (draw R) img lens_calls;
                 w = print ''Adding camera viewfinder corners...'' w;
                 img = foldl (draw R) img corner_calls;
                 w = print (''Saving icon to '' @ output_path @ ''...'') w
             in case save_fault w of
                  Some e \<Rightarrow> (w, Inl e)
                | None \<Rightarrow>
                    let w = w\<lparr>files := (files w)(output_path \<mapsto> img)\<rparr>;
                        w = print (check_mark @ '' App icon created successfully!'') w;
                        w = print ''   Size: 1024x1024'' w;
                        w = print (''   Location: '' @ output_path) w;
                        w = print (CHR 0x0A # ''Next steps:'') w;
                        w = print ''1. Open Xcode and verify the icon appears'' w;
                        w = print ''2. Build the app to see it on simulator/device'' w;
                        w = print ''3. Optionally upload to https://appicon.co to generate all sizes'' w
                    in (w, Inr ()))"

text \<open>
  The script from its first line: the import of Pillow, at the top of the module, and then
  the guarded call at its end, \<^verbatim>\<open>try: create_app_icon()\<close> with the two handlers
  \<^verbatim>\<open>except ImportError\<close> and \<^verbatim>\<open>except Exception\<close>, tried in this order; the second one
  prints the text of the exception and then its traceback (\<^verbatim>\<open>traceback.print_exc()\<close>, which
  writes to the error stream; the console of the model holds both streams). A run ends
  normally, or with an exception nobody caught.
\<close>

datatype outcome = Finished world | Uncaught exn world

definition print_exc :: "exn \<Rightarrow> world \<Rightarrow> world" where
  "print_exc e w = w\<lparr>console := console w @ [Traceback e]\<rparr>"

definition main_block :: "rasteriser \<Rightarrow> world \<Rightarrow> outcome" where
  "main_block R w =
     (case create_app_icon R w of
        (w, Inr _) \<Rightarrow> Finished w
      | (w, Inl e) \<Rightarrow>
          if is_ImportError (exc_cls e) then
            Finished
              (print ''  conda install pillow''
                (print (CHR 0x0A # ''Or if using conda:'')
                  (print ''  pip3 install Pillow''
                    (print (CHR 0x0A # ''To install, run:'')
                      (print (cross_mark @ '' Error: PIL (Pillow) not installed'') w)))))
          else if is_Exception (exc_cls e) then
            Finished (print_exc e (print (cross_mark @ '' Error creating icon: '' @ exc_msg e) w))
          else Uncaught e w)"

definition run_script :: "rasteriser \<Rightarrow> world \<Rightarrow> outcome" where
  "run_script R w =
     (if pil_installed w then main_block R w
      else Uncaught (Exn ModuleNotFoundError (''No module named '' @ [CHR 0x27] @ ''PIL'' @ [CHR 0x27])) w)"

section \<open>Reference notions of the specification\<close>

text \<open>
  The interpolation the specification describes for one channel of row \<open>y\<close>:
  \<open>start + t * (end - start)\<close> with \<open>t = y / height\<close>, rounded to the nearest integer.
\<close>

definition spec_channel :: "int \<Rightarrow> int \<Rightarrow> int \<Rightarrow> int \<Rightarrow> int" where
  "spec_channel s e y height =
     round (of_int s + (of_int y / of_int height) * (of_int e - of_int s) :: rat)"

text \<open>
  The interpolation the code performs for one channel of row \<open>y\<close>: the same formula with
  the factor \<open>mask / 255\<close>, where \<open>mask\<close> is the byte \<^verbatim>\<open>int(255 * (y / height))\<close> of the row.
\<close>

definition code_channel :: "int \<Rightarrow> int \<Rightarrow> int \<Rightarrow> int \<Rightarrow> int" where
  "code_channel s e y height =
     round (of_int s + (of_int (mask_value y height) / 255) * (of_int e - of_int s) :: rat)"

text \<open>
  Mirror images of a pixel: in the vertical and horizontal centre lines of a raster with
  \<open>n\<close> columns and rows, which swap column \<open>x\<close> with column \<open>n - 1 - x\<close>, and in the column
  and the row with number \<open>c\<close>.
\<close>

definition flip_h :: "int \<Rightarrow> point \<Rightarrow> point" where
  "flip_h n p = (n - 1 - fst p, snd p)"

definition flip_v :: "int \<Rightarrow> point \<Rightarrow> point" where
  "flip_v n p = (fst p, n - 1 - snd p)"

definition reflect_col :: "int \<Rightarrow> point \<Rightarrow> point" where
  "reflect_col c p = (2 * c - fst p, snd p)"

definition reflect_row :: "int \<Rightarrow> point \<Rightarrow> point" where
  "reflect_row c p = (fst p, 2 * c - snd p)"

text \<open>
  An exact rasteriser, to run the script on: an ellipse covers the pixels inside the ellipse
  inscribed in its box, its outline those that are not inside the ellipse of the box
  shrunk by the width. Slanted lines, of which the script draws none, cover nothing.
\<close>

definition in_ellipse :: "int \<times> int \<times> int \<times> int \<Rightarrow> point \<Rightarrow> bool" where
  "in_ellipse box p =
     (case box of (x0, y0, x1, y1) \<Rightarrow>
        (2 * fst p - x0 - x1)\<^sup>2 * (y1 - y0)\<^sup>2 + (2 * snd p - y0 - y1)\<^sup>2 * (x1 - x0)\<^sup>2
          \<le> (x1 - x0)\<^sup>2 * (y1 - y0)\<^sup>2)"

definition exact_rasteriser :: rasteriser where
  "exact_rasteriser =
     \<lparr>ellipse_area = (\<lambda>box. {p. in_ellipse box p}),
      ellipse_ring = (\<lambda>box width. {p. in_ellipse box p
          \<and> \<not> in_ellipse (case box of (x0, y0, x1, y1) \<Rightarrow>
                (x0 + width, y0 + width, x1 - width, y1 - width)) p}),
      slanted_line = (\<lambda>p q width. {})\<rparr>"


section \<open>Rounding to a float\<close>

lemma ilog2_nonneg: "0 \<le> ilog2 n"
proof (induction n rule: ilog2.induct)
  case (1 n)
  then show ?case by (subst ilog2.simps) simp
qed

lemma ilog2_bounds:
  "1 \<le> n \<Longrightarrow> 2 ^ nat (ilog2 n) \<le> n \<and> n < 2 * 2 ^ nat (ilog2 n)"
proof (induction n rule: ilog2.induct)
  case (1 n)
  show ?case
  proof (cases "n \<le> 1")
    case True
    with "1.prems" have "n = 1" by simp
    then show ?thesis by (simp add: ilog2.simps)
  next
    case False
    then have h: "1 \<le> n div 2" by simp
    define k :: int where "k = 2 ^ nat (ilog2 (n div 2))"
    from "1.IH" [OF False h] have ih: "k \<le> n div 2" "n div 2 < 2 * k"
      by (simp_all add: k_def)
    have e: "ilog2 n = 1 + ilog2 (n div 2)"
      using False by (subst ilog2.simps) simp
    have p: "(2::int) ^ nat (ilog2 n) = 2 * k"
      using ilog2_nonneg [of "n div 2"] by (simp add: e k_def nat_add_distrib)
    from ih show ?thesis unfolding p by linarith
  qed
qed

lemma ilog2_powi:
  assumes "1 \<le> n"
  shows "2 powi (ilog2 n) \<le> (of_int n :: rat)" and "(of_int n :: rat) < 2 * 2 powi (ilog2 n)"
proof -
  have eq: "(2::rat) powi (ilog2 n) = of_int (2 ^ nat (ilog2 n))"
    using ilog2_nonneg [of n] by (simp add: power_int_nonneg_exp)
  from ilog2_bounds [OF assms] have b: "2 ^ nat (ilog2 n) \<le> n" "n < 2 * 2 ^ nat (ilog2 n)"
    by simp_all
  show "2 powi (ilog2 n) \<le> (of_int n :: rat)"
    unfolding eq using b(1) by (simp only: of_int_le_iff)
  have "(of_int n :: rat) < of_int (2 * 2 ^ nat (ilog2 n))"
    using b(2) by (simp only: of_int_less_iff)
  then show "(of_int n :: rat) < 2 * 2 powi (ilog2 n)"
    unfolding eq by simp
qed

lemma binade_bounds:
  assumes "0 < q"
  shows "2 powi (binade q) \<le> q" and "q < 2 powi (binade q + 1)"
proof -
  obtain a b where ab: "quotient_of q = (a, b)" by (cases "quotient_of q")
  have bpos: "0 < b" using ab by (rule quotient_of_denom_pos)
  have q: "q = of_int a / of_int b" using ab by (rule quotient_of_div)
  have apos: "0 < a"
    using assms bpos unfolding q by (simp add: zero_less_divide_iff)
  define la lb where "la = ilog2 a" and "lb = ilog2 b"
  define A B :: rat where "A = 2 powi la" and "B = 2 powi lb"
  have Apos: "0 < A" and Bpos: "0 < B" by (simp_all add: A_def B_def)
  have a1: "A \<le> of_int a" and a2: "(of_int a :: rat) < 2 * A"
    using ilog2_powi [of a] apos by (simp_all add: A_def la_def)
  have b1: "B \<le> of_int b" and b2: "(of_int b :: rat) < 2 * B"
    using ilog2_powi [of b] bpos by (simp_all add: B_def lb_def)
  have d0: "(2::rat) powi (la - lb) = A / B"
    by (simp add: power_int_diff A_def B_def)
  have dm: "(2::rat) powi (la - lb - 1) = A / (2 * B)"
    by (simp add: power_int_diff A_def B_def)
  have dp: "(2::rat) powi (la - lb + 1) = 2 * A / B"
    by (simp add: power_int_add power_int_diff A_def B_def)
  have bq: "0 < (of_int b :: rat)" using bpos by simp
  have lo: "A / (2 * B) \<le> q"
  proof -
    have "A / (2 * B) \<le> of_int a / of_int b"
      by (rule frac_le) (use a1 b2 Apos bq in simp_all)
    then show ?thesis by (simp add: q)
  qed
  have hi: "q < 2 * A / B"
  proof -
    have "of_int a / of_int b < 2 * A / B"
      by (rule frac_less) (use a2 b1 apos Bpos in simp_all)
    then show ?thesis by (simp add: q)
  qed
  have bd: "binade q = (if A / B \<le> q then la - lb else la - lb - 1)"
    using d0 by (simp add: binade_def ab Let_def la_def lb_def)
  show "2 powi (binade q) \<le> q"
    using lo by (simp add: bd d0 dm)
  show "q < 2 powi (binade q + 1)"
    using hi by (auto simp add: bd dp d0 not_le)
qed

lemma binade_mono:
  assumes "0 < q" and "q \<le> r"
  shows "binade q \<le> binade r"
proof (rule ccontr)
  assume "\<not> binade q \<le> binade r"
  then have "binade r + 1 \<le> binade q" by simp
  then have "(2::rat) powi (binade r + 1) \<le> 2 powi (binade q)"
    by (intro power_int_increasing) simp_all
  also have "\<dots> \<le> q" using assms(1) by (rule binade_bounds)
  also have "\<dots> \<le> r" by (rule assms(2))
  also have "\<dots> < 2 powi (binade r + 1)"
    using assms by (intro binade_bounds) simp
  finally show False by simp
qed

lemma round_half_even_of_int [simp]: "round_half_even (of_int k) = k"
  by (simp add: round_half_even_def)

lemma round_half_even_ge: "\<lfloor>q\<rfloor> \<le> round_half_even q"
  by (simp add: round_half_even_def Let_def)

lemma round_half_even_le: "round_half_even q \<le> \<lfloor>q\<rfloor> + 1"
  by (simp add: round_half_even_def Let_def)

lemma round_half_even_mono:
  assumes "q \<le> r"
  shows "round_half_even q \<le> round_half_even r"
proof (cases "\<lfloor>q\<rfloor> = \<lfloor>r\<rfloor>")
  case True
  with assms show ?thesis
    by (auto simp add: round_half_even_def Let_def)
next
  case False
  with assms have "\<lfloor>q\<rfloor> + 1 \<le> \<lfloor>r\<rfloor>"
    using floor_mono [of q r] by linarith
  with round_half_even_le [of q] round_half_even_ge [of r] show ?thesis by linarith
qed


lemma fl64_pos_eq:
  assumes "0 < q"
  shows "fl64 q = of_int (round_half_even (q / 2 powi (max (binade q) (- 1022) - 52)))
                   * 2 powi (max (binade q) (- 1022) - 52)"
  using assms by (simp add: fl64_def Let_def)

lemma fl64_nonneg:
  assumes "0 \<le> q"
  shows "0 \<le> fl64 q"
proof (cases "q = 0")
  case True
  then show ?thesis by (simp add: fl64_def)
next
  case False
  with assms have pos: "0 < q" by simp
  define u :: rat where "u = 2 powi (max (binade q) (- 1022) - 52)"
  have upos: "0 < u" by (simp add: u_def)
  have "0 \<le> \<lfloor>q / u\<rfloor>" using pos upos by simp
  with round_half_even_ge [of "q / u"] have "0 \<le> round_half_even (q / u)" by linarith
  then show ?thesis
    using upos by (simp add: fl64_pos_eq [OF pos] u_def [symmetric])
qed

lemma fl64_upper:
  assumes "0 < q"
  shows "fl64 q \<le> 2 powi (max (binade q) (- 1022) + 1)"
proof -
  define e where "e = max (binade q) (- 1022)"
  define u :: rat where "u = 2 powi (e - 52)"
  have upos: "0 < u" by (simp add: u_def)
  have top: "(2::rat) powi (e + 1) = 2 ^ 53 * u"
    by (simp add: u_def power_int_add power_int_diff)
  have "q < 2 powi (binade q + 1)" using assms by (rule binade_bounds)
  also have "\<dots> \<le> 2 powi (e + 1)"
    by (intro power_int_increasing) (simp_all add: e_def)
  finally have "q < 2 ^ 53 * u" by (simp add: top)
  then have "q / u \<le> of_int (2 ^ 53)"
    using upos by (simp add: pos_divide_le_eq)
  then have "round_half_even (q / u) \<le> round_half_even (of_int (2 ^ 53))"
    by (rule round_half_even_mono)
  then have "round_half_even (q / u) \<le> 2 ^ 53"
    by (simp only: round_half_even_of_int)
  then have "(of_int (round_half_even (q / u)) :: rat) \<le> of_int (2 ^ 53)"
    by (simp only: of_int_le_iff)
  then have "of_int (round_half_even (q / u)) * u \<le> 2 ^ 53 * u"
    using upos by simp
  then show ?thesis
    by (simp add: fl64_pos_eq [OF assms] e_def [symmetric] u_def [symmetric] top)
qed

lemma fl64_lower:
  assumes "0 < q" and "- 1022 \<le> binade q"
  shows "2 powi (binade q) \<le> fl64 q"
proof -
  define e where "e = binade q"
  define u :: rat where "u = 2 powi (e - 52)"
  have upos: "0 < u" by (simp add: u_def)
  have m: "max (binade q) (- 1022) = e" using assms(2) by (simp add: e_def)
  have bot: "(2::rat) powi e = 2 ^ 52 * u"
    by (simp add: u_def power_int_diff)
  have "2 powi e \<le> q" unfolding e_def using assms(1) by (rule binade_bounds)
  then have "of_int (2 ^ 52) \<le> q / u"
    using upos by (simp add: bot pos_le_divide_eq)
  then have "round_half_even (of_int (2 ^ 52)) \<le> round_half_even (q / u)"
    by (rule round_half_even_mono)
  then have "2 ^ 52 \<le> round_half_even (q / u)"
    by (simp only: round_half_even_of_int)
  then have "(of_int (2 ^ 52) :: rat) \<le> of_int (round_half_even (q / u))"
    by (simp only: of_int_le_iff)
  then have "2 ^ 52 * u \<le> of_int (round_half_even (q / u)) * u"
    using upos by simp
  moreover have "fl64 q = of_int (round_half_even (q / u)) * u"
    by (simp only: fl64_pos_eq [OF assms(1)] m u_def [symmetric])
  ultimately show ?thesis
    by (simp only: bot e_def [symmetric])
qed

lemma fl64_mono:
  assumes "0 \<le> q" and "q \<le> r"
  shows "fl64 q \<le> fl64 r"
proof (cases "q = 0")
  case True
  with assms fl64_nonneg [of r] show ?thesis by (simp add: fl64_def)
next
  case False
  with assms have qpos: "0 < q" and rpos: "0 < r" by simp_all
  define e e' where "e = max (binade q) (- 1022)" and "e' = max (binade r) (- 1022)"
  have ee: "e \<le> e'"
    using binade_mono [OF qpos assms(2)] by (simp add: e_def e'_def)
  show ?thesis
  proof (cases "e = e'")
    case True
    define u :: rat where "u = 2 powi (e - 52)"
    have upos: "0 < u" by (simp add: u_def)
    have "q / u \<le> r / u" using assms(2) upos by (simp add: divide_right_mono)
    then have "round_half_even (q / u) \<le> round_half_even (r / u)"
      by (rule round_half_even_mono)
    then have "(of_int (round_half_even (q / u)) :: rat) \<le> of_int (round_half_even (r / u))"
      by (simp only: of_int_le_iff)
    then have "of_int (round_half_even (q / u)) * u \<le> of_int (round_half_even (r / u)) * u"
      using upos by simp
    moreover have "fl64 q = of_int (round_half_even (q / u)) * u"
      by (simp only: fl64_pos_eq [OF qpos] e_def [symmetric] u_def [symmetric])
    moreover have "fl64 r = of_int (round_half_even (r / u)) * u"
      by (simp only: fl64_pos_eq [OF rpos] e'_def [symmetric] True [symmetric]
          u_def [symmetric])
    ultimately show ?thesis by simp
  next
    case False
    with ee have lt: "e + 1 \<le> e'" by simp
    then have big: "- 1022 \<le> binade r" and e'b: "e' = binade r"
      by (simp_all add: e_def e'_def max_def split: if_splits)
    have "fl64 q \<le> 2 powi (e + 1)"
      unfolding e_def using qpos by (rule fl64_upper)
    also have "\<dots> \<le> 2 powi e'"
      using lt by (intro power_int_increasing) simp_all
    also have "\<dots> \<le> fl64 r"
      unfolding e'b using rpos big by (rule fl64_lower)
    finally show ?thesis .
  qed
qed

lemma fl64_0 [simp]: "fl64 0 = 0"
  by (simp add: fl64_def)

lemma fl64_1: "fl64 1 = 1"
  by code_simp

lemma fl64_255: "fl64 255 = 255"
  by code_simp

lemma fl64_unit:
  assumes "0 \<le> q" and "q \<le> 1"
  shows "0 \<le> fl64 q" and "fl64 q \<le> 1"
proof -
  show "0 \<le> fl64 q" using assms(1) by (rule fl64_nonneg)
  have "fl64 q \<le> fl64 1" using assms by (rule fl64_mono)
  then show "fl64 q \<le> 1" by (simp only: fl64_1)
qed

lemma row_factor_unit:
  assumes "0 \<le> y" and "y < h"
  shows "0 \<le> fl64 (of_int y / of_int h)" and "fl64 (of_int y / of_int h) \<le> 1"
proof -
  have "(0::rat) \<le> of_int y / of_int h" and "(of_int y / of_int h :: rat) \<le> 1"
    using assms by (simp_all add: divide_le_eq_1)
  then show "0 \<le> fl64 (of_int y / of_int h)" and "fl64 (of_int y / of_int h) \<le> 1"
    by (rule fl64_unit)+
qed

lemma py_truediv_row:
  assumes "0 \<le> y" and "y < h"
  shows "py_truediv y h = Inr (fl64 (of_int y / of_int h))"
proof -
  have "\<bar>fl64 (of_int y / of_int h)\<bar> \<le> 1"
    using row_factor_unit [OF assms] by simp
  moreover have "(1::rat) < 2 powi 1024" by simp
  ultimately have "\<not> 2 powi 1024 \<le> \<bar>fl64 (of_int y / of_int h)\<bar>" by linarith
  with assms show ?thesis by (simp add: py_truediv_def Let_def)
qed

lemma mask_value_nonneg_arg:
  assumes "0 \<le> t"
  shows "py_int (py_mul_int_float 255 t) = \<lfloor>fl64 (255 * t)\<rfloor>"
proof -
  have "0 \<le> fl64 (255 * t)" using assms by (intro fl64_nonneg) simp
  then show ?thesis by (simp add: py_int_def py_mul_int_float_def fl64_255)
qed

lemma mask_value_eq:
  assumes "0 \<le> y" and "0 < h"
  shows "mask_value y h = \<lfloor>fl64 (255 * fl64 (of_int y / of_int h))\<rfloor>"
proof -
  have "(0::rat) \<le> of_int y / of_int h" using assms by simp
  then have "0 \<le> fl64 (of_int y / of_int h)" by (rule fl64_nonneg)
  then show ?thesis unfolding mask_value_def by (rule mask_value_nonneg_arg)
qed

lemma mask_value_0: "0 < h \<Longrightarrow> mask_value 0 h = 0"
  by (simp add: mask_value_eq)

lemma mask_value_mono:
  assumes "0 \<le> y" and "y \<le> y'" and "0 < h"
  shows "mask_value y h \<le> mask_value y' h"
proof -
  have q: "(0::rat) \<le> of_int y / of_int h" using assms by simp
  have "(of_int y / of_int h :: rat) \<le> of_int y' / of_int h"
    using assms by (simp add: divide_right_mono)
  with q have "fl64 (of_int y / of_int h) \<le> fl64 (of_int y' / of_int h)"
    by (rule fl64_mono)
  moreover have "0 \<le> fl64 (of_int y / of_int h)" using q by (rule fl64_nonneg)
  ultimately have "fl64 (255 * fl64 (of_int y / of_int h))
      \<le> fl64 (255 * fl64 (of_int y' / of_int h))"
    by (intro fl64_mono) simp_all
  then have "\<lfloor>fl64 (255 * fl64 (of_int y / of_int h))\<rfloor>
      \<le> \<lfloor>fl64 (255 * fl64 (of_int y' / of_int h))\<rfloor>"
    by (rule floor_mono)
  then show ?thesis using assms by (simp add: mask_value_eq)
qed

lemma mask_value_range:
  assumes "0 \<le> y" and "y < h"
  shows "0 \<le> mask_value y h" and "mask_value y h \<le> 255"
proof -
  have h: "0 < h" using assms by simp
  note u = row_factor_unit [OF assms]
  have "0 \<le> fl64 (255 * fl64 (of_int y / of_int h))"
    using u(1) by (intro fl64_nonneg) simp
  then show "0 \<le> mask_value y h"
    using assms(1) h by (simp add: mask_value_eq)
  have "fl64 (255 * fl64 (of_int y / of_int h)) \<le> fl64 255"
    using u by (intro fl64_mono) simp_all
  then have "\<lfloor>fl64 (255 * fl64 (of_int y / of_int h))\<rfloor> \<le> \<lfloor>255 :: rat\<rfloor>"
    unfolding fl64_255 by (rule floor_mono)
  then show "mask_value y h \<le> 255"
    using assms(1) h by (simp add: mask_value_eq)
qed

lemma fl64_255_256: "fl64 (255 / 256) = 255 / 256"
  by code_simp

lemma floor_fl64_254: "\<lfloor>fl64 (255 * (255 / 256))\<rfloor> = 254"
  by code_simp

lemma mask_value_254_255: "mask_value 254 255 = 254"
  by code_simp

lemma mask_value_last:
  assumes "255 \<le> h"
  shows "254 \<le> mask_value (h - 1) h"
proof (cases "h = 255")
  case True
  then show ?thesis by (simp add: mask_value_254_255)
next
  case False
  with assms have h: "256 \<le> h" by simp
  then have "(255::rat) * of_int h \<le> 256 * (of_int h - 1)"
  proof -
    have "255 * h \<le> 256 * (h - 1)" using h by simp
    then have "(of_int (255 * h) :: rat) \<le> of_int (256 * (h - 1))"
      by (simp only: of_int_le_iff)
    then show ?thesis by simp
  qed
  then have "(255 / 256 :: rat) \<le> of_int (h - 1) / of_int h"
    using h by (simp add: field_simps)
  then have "fl64 (255 / 256) \<le> fl64 (of_int (h - 1) / of_int h)"
    by (intro fl64_mono) simp_all
  then have "255 * (255 / 256) \<le> 255 * fl64 (of_int (h - 1) / of_int h)"
    by (simp add: fl64_255_256)
  then have "fl64 (255 * (255 / 256)) \<le> fl64 (255 * fl64 (of_int (h - 1) / of_int h))"
    by (intro fl64_mono) simp_all
  then have "\<lfloor>fl64 (255 * (255 / 256))\<rfloor>
      \<le> \<lfloor>fl64 (255 * fl64 (of_int (h - 1) / of_int h))\<rfloor>"
    by (rule floor_mono)
  then have "254 \<le> \<lfloor>fl64 (255 * fl64 (of_int (h - 1) / of_int h))\<rfloor>"
    by (simp only: floor_fl64_254)
  moreover have "mask_value (h - 1) h = \<lfloor>fl64 (255 * fl64 (of_int (h - 1) / of_int h))\<rfloor>"
    using h by (intro mask_value_eq) simp_all
  ultimately show ?thesis by simp
qed


section \<open>Blending\<close>

lemma div255_mono: "a \<le> b \<Longrightarrow> div255 a \<le> div255 b"
  unfolding div255_def Let_def
  by (intro zdiv_mono1 add_mono) simp_all

lemma div255_round:
  assumes "0 \<le> a" and "a \<le> 65025"
  shows "div255 a = (a + 127) div 255"
proof -
  define q r where "q = (a + 128) div 256" and "r = (a + 128) mod 256"
  have t: "a + 128 = 256 * q + r" by (simp add: q_def r_def)
  have r: "0 \<le> r" "r < 256" by (simp_all add: r_def)
  have q: "0 \<le> q" "q \<le> 254" using assms by (simp_all add: q_def)
  have one: "1 \<le> q + r" using assms t r q by linarith
  have lhs: "div255 a = q + (q + r) div 256"
  proof -
    have "div255 a = (q + (a + 128)) div 256"
      by (simp add: div255_def Let_def q_def)
    also have "\<dots> = (q + (256 * q + r)) div 256"
      by (simp only: t)
    also have "\<dots> = (256 * q + (q + r)) div 256" by (simp add: algebra_simps)
    also have "\<dots> = q + (q + r) div 256" by simp
    finally show ?thesis .
  qed
  have rhs: "(a + 127) div 255 = q + (q + r - 1) div 255"
  proof -
    have "a + 127 = 255 * q + (q + r - 1)" using t by simp
    then show ?thesis by simp
  qed
  show ?thesis
  proof (cases "q + r < 256")
    case True
    then have "(q + r) div 256 = 0" and "(q + r - 1) div 255 = 0"
      using one q r by simp_all
    then show ?thesis by (simp add: lhs rhs)
  next
    case False
    then have "(q + r) div 256 = 1" and "(q + r - 1) div 255 = 1"
      using q r by simp_all
    then show ?thesis by (simp add: lhs rhs)
  qed
qed

lemma blend_arg_range:
  fixes m a b :: int
  assumes "0 \<le> m" "m \<le> 255" "0 \<le> a" "a \<le> 255" "0 \<le> b" "b \<le> 255"
  shows "0 \<le> a * (255 - m) + b * m" and "a * (255 - m) + b * m \<le> 65025"
proof -
  show "0 \<le> a * (255 - m) + b * m" using assms by simp
  have "a * (255 - m) \<le> 255 * (255 - m)" using assms by (intro mult_right_mono) simp_all
  moreover have "b * m \<le> 255 * m" using assms by (intro mult_right_mono) simp_all
  ultimately show "a * (255 - m) + b * m \<le> 65025" by simp
qed

lemma blend_round:
  assumes "0 \<le> m" "m \<le> 255" "0 \<le> a" "a \<le> 255" "0 \<le> b" "b \<le> 255"
  shows "blend m a b = (a * (255 - m) + b * m + 127) div 255"
  unfolding blend_def using blend_arg_range [OF assms] by (rule div255_round)

lemma blend_0:
  assumes "0 \<le> a" "a \<le> 255" "0 \<le> b" "b \<le> 255"
  shows "blend 0 a b = a"
proof -
  have "blend 0 a b = (a * 255 + 127) div 255"
    using blend_round [of 0 a b] assms by simp
  then show ?thesis by simp
qed

lemma blend_255:
  assumes "0 \<le> a" "a \<le> 255" "0 \<le> b" "b \<le> 255"
  shows "blend 255 a b = b"
proof -
  have "blend 255 a b = (b * 255 + 127) div 255"
    using blend_round [of 255 a b] assms by simp
  then show ?thesis by simp
qed

lemma blend_254:
  assumes "0 \<le> a" "a \<le> 255" "0 \<le> b" "b \<le> 255"
  shows "\<bar>blend 254 a b - b\<bar> \<le> 1"
proof -
  have "blend 254 a b = (a + b * 254 + 127) div 255"
    using blend_round [of 254 a b] assms by simp
  then show ?thesis using assms by linarith
qed

lemma blend_mono_up:
  assumes "a \<le> b" and "m \<le> m'"
  shows "blend m a b \<le> blend m' a b"
proof -
  have "(b - a) * m \<le> (b - a) * m'" using assms by (intro mult_left_mono) simp_all
  then have "a * (255 - m) + b * m \<le> a * (255 - m') + b * m'"
    by (simp add: algebra_simps)
  then show ?thesis unfolding blend_def by (rule div255_mono)
qed

lemma blend_mono_down:
  assumes "b \<le> a" and "m \<le> m'"
  shows "blend m' a b \<le> blend m a b"
proof -
  have "(a - b) * m \<le> (a - b) * m'" using assms by (intro mult_left_mono) simp_all
  then have "a * (255 - m') + b * m' \<le> a * (255 - m) + b * m"
    by (simp add: algebra_simps)
  then show ?thesis unfolding blend_def by (rule div255_mono)
qed

lemma clip8_range: "0 \<le> clip8 v" "clip8 v \<le> 255"
  by (simp_all add: clip8_def)

lemma clip8_id: "0 \<le> v \<Longrightarrow> v \<le> 255 \<Longrightarrow> clip8 v = v"
  by (simp add: clip8_def)

lemma clip8_mono: "u \<le> v \<Longrightarrow> clip8 u \<le> clip8 v"
  by (simp add: clip8_def)


section \<open>What the gradient computes\<close>

lemma py_range_set: "y \<in> set (py_range h) \<longleftrightarrow> 0 \<le> y \<and> y < h"
  by (auto simp add: py_range_def)

lemma py_range_length: "length (py_range h) = nat h"
  by (simp add: py_range_def)

lemma py_range_nth: "0 \<le> y \<Longrightarrow> y < h \<Longrightarrow> py_range h ! nat y = y"
  by (simp add: py_range_def)

lemma length_rows: "length (concat (map (\<lambda>y. replicate n (f y)) ys)) = length ys * n"
  by (induction ys) simp_all

lemma nth_rows:
  "j < length ys \<Longrightarrow> x < n \<Longrightarrow> concat (map (\<lambda>y. replicate n (f y)) ys) ! (j * n + x) = f (ys ! j)"
proof (induction ys arbitrary: j)
  case Nil
  then show ?case by simp
next
  case (Cons y ys)
  show ?case
  proof (cases j)
    case 0
    with Cons.prems show ?thesis by (simp add: nth_append)
  next
    case (Suc k)
    with Cons.prems have k: "k < length ys" by simp
    have "concat (map (\<lambda>y. replicate n (f y)) (y # ys)) ! (j * n + x)
        = concat (map (\<lambda>y. replicate n (f y)) ys) ! (k * n + x)"
      by (simp add: Suc nth_append)
    also have "\<dots> = f (ys ! k)" using k Cons.prems(2) by (rule Cons.IH)
    finally show ?thesis by (simp add: Suc)
  qed
qed

lemma map_rows:
  "map g (concat (map (\<lambda>y. replicate n (f y)) ys)) = concat (map (\<lambda>y. replicate n (g (f y))) ys)"
  by (induction ys) simp_all

lemma rows_cong:
  "(\<And>y. y \<in> set ys \<Longrightarrow> f y = g y) \<Longrightarrow>
   concat (map (\<lambda>y. replicate n (f y)) ys) = concat (map (\<lambda>y. replicate n (g y)) ys)"
  by (induction ys) simp_all

lemma mask_rows_ok:
  assumes "\<forall>y\<in>set ys. 0 \<le> y \<and> y < h"
  shows "mask_rows w h ys acc
         = Inr (acc @ concat (map (\<lambda>y. replicate (nat w) (mask_value y h)) ys))"
  using assms
proof (induction ys arbitrary: acc)
  case Nil
  then show ?case by simp
next
  case (Cons y ys)
  then have y: "0 \<le> y" "y < h" and rest: "\<forall>y\<in>set ys. 0 \<le> y \<and> y < h" by simp_all
  show ?case
    by (simp add: py_truediv_row [OF y] Cons.IH [OF rest] mask_value_def)
qed

lemma zip_constant:
  "length xs = n \<Longrightarrow> zip xs (zip (replicate n a) (replicate n b)) = map (\<lambda>m. (m, a, b)) xs"
  by (simp add: zip_replicate2)

lemma create_gradient_eq:
  assumes "0 \<le> w" and "0 \<le> h"
  shows "create_gradient w h c1 c2 =
           Inr \<lparr>im_mode = ''RGB'', im_width = w, im_height = h,
                im_data = concat (map (\<lambda>y. replicate (nat w)
                            (blend_rgb (mask_value y h) (getink c1) (getink c2))) (py_range h))\<rparr>"
proof -
  define md where "md = concat (map (\<lambda>y. replicate (nat w) (mask_value y h)) (py_range h))"
  have rows: "mask_rows w h (py_range h) [] = Inr md"
    using mask_rows_ok [of "py_range h" h w "[]"] by (simp add: py_range_set md_def)
  have len: "length md = nat (w * h)"
    using assms by (simp add: md_def length_rows py_range_length nat_mult_distrib mult.commute)
  have clip: "map clip8 md = md"
  proof -
    have "map clip8 md
        = concat (map (\<lambda>y. replicate (nat w) (clip8 (mask_value y h))) (py_range h))"
      unfolding md_def by (rule map_rows)
    also have "\<dots> = md"
      unfolding md_def
      by (rule rows_cong) (simp add: py_range_set clip8_id mask_value_range)
    finally show ?thesis .
  qed
  have put: "putdata \<lparr>im_mode = ''L'', im_width = w, im_height = h,
                       im_data = replicate (nat (w * h)) 0\<rparr> md
             = \<lparr>im_mode = ''L'', im_width = w, im_height = h, im_data = md\<rparr>"
    by (simp add: putdata_def len clip)
  have blendrows: "map (\<lambda>(m, p, q). blend_rgb m p q)
          (zip md (zip (replicate (nat (w * h)) (getink c1)) (replicate (nat (w * h)) (getink c2))))
        = concat (map (\<lambda>y. replicate (nat w)
            (blend_rgb (mask_value y h) (getink c1) (getink c2))) (py_range h))"
  proof -
    have "map (\<lambda>(m, p, q). blend_rgb m p q)
          (zip md (zip (replicate (nat (w * h)) (getink c1)) (replicate (nat (w * h)) (getink c2))))
        = map (\<lambda>m. blend_rgb m (getink c1) (getink c2)) md"
      by (subst zip_constant [OF len]) (simp add: o_def)
    also have "\<dots> = concat (map (\<lambda>y. replicate (nat w)
            (blend_rgb (mask_value y h) (getink c1) (getink c2))) (py_range h))"
      unfolding md_def by (rule map_rows)
    finally show ?thesis .
  qed
  show ?thesis
    using assms
    by (simp add: create_gradient_def Image_new_def rows put paste_def blendrows
        del: zip_replicate)
qed

lemma gradient_pixel:
  assumes "0 \<le> x" "x < w" "0 \<le> y" "y < h"
  shows "pixel_at \<lparr>im_mode = ''RGB'', im_width = w, im_height = h,
                im_data = concat (map (\<lambda>y. replicate (nat w) (f y)) (py_range h))\<rparr> (x, y)
         = Some (f y)"
proof -
  have idx: "nat (y * w + x) = nat y * nat w + nat x"
    using assms by (simp add: nat_add_distrib nat_mult_distrib)
  have j: "nat y < length (py_range h)" using assms by (simp add: py_range_length)
  have xn: "nat x < nat w" using assms by simp
  have inside: "nat y * nat w + nat x < length (py_range h) * nat w"
  proof -
    have "nat y * nat w + nat x < nat y * nat w + nat w" using xn by simp
    also have "\<dots> = Suc (nat y) * nat w" by simp
    also have "\<dots> \<le> length (py_range h) * nat w"
      using j by (intro mult_le_mono1) simp
    finally show ?thesis .
  qed
  have "concat (map (\<lambda>y. replicate (nat w) (f y)) (py_range h)) ! (nat y * nat w + nat x)
        = f (py_range h ! nat y)"
    using j xn by (rule nth_rows)
  then show ?thesis
    using assms inside by (simp add: pixel_at_def idx length_rows py_range_nth)
qed


lemma getink_range:
  "0 \<le> red (getink c)" "red (getink c) \<le> 255"
  "0 \<le> green (getink c)" "green (getink c) \<le> 255"
  "0 \<le> blue (getink c)" "blue (getink c) \<le> 255"
  by (cases c; simp add: red_def green_def blue_def clip8_range)+

lemma blend_rgb_0: "blend_rgb 0 (getink c) (getink d) = getink c"
proof -
  have "blend 0 (red (getink c)) (red (getink d)) = red (getink c)"
    and "blend 0 (green (getink c)) (green (getink d)) = green (getink c)"
    and "blend 0 (blue (getink c)) (blue (getink d)) = blue (getink c)"
    by (rule blend_0; rule getink_range)+
  then show ?thesis
    by (simp add: blend_rgb_def) (simp add: red_def green_def blue_def)
qed

lemma blend_rgb_sel [simp]:
  "red (blend_rgb m p q) = blend m (red p) (red q)"
  "green (blend_rgb m p q) = blend m (green p) (green q)"
  "blue (blend_rgb m p q) = blend m (blue p) (blue q)"
  by (simp_all add: blend_rgb_def red_def green_def blue_def)

lemma blend_near_end:
  assumes "254 \<le> m" "m \<le> 255" "0 \<le> a" "a \<le> 255" "0 \<le> b" "b \<le> 255"
  shows "\<bar>blend m a b - b\<bar> \<le> 1"
proof -
  from assms(1,2) have "m = 254 \<or> m = 255" by linarith
  then show ?thesis
  proof
    assume "m = 254"
    then show ?thesis using blend_254 [of a b] assms by simp
  next
    assume "m = 255"
    then show ?thesis using blend_255 [of a b] assms by simp
  qed
qed

lemma round_div_255: "round (of_int v / 255 :: rat) = (v + 127) div 255"
proof -
  have "(of_int v / 255 + 1 / 2 :: rat) = of_int (2 * v + 255) / of_int 510"
    by (simp add: field_simps)
  then have "round (of_int v / 255 :: rat) = \<lfloor>of_int (2 * v + 255) / of_int 510 :: rat\<rfloor>"
    by (simp only: round_def)
  also have "\<dots> = (2 * v + 255) div 510"
    by (rule floor_divide_of_int_eq)
  also have "\<dots> = (1 + 2 * (v + 127)) div (2 * 255)"
    by (simp add: algebra_simps)
  also have "\<dots> = (v + 127) div 255"
    by (rule pos_zdiv_mult_2) simp
  finally show ?thesis .
qed

lemma blend_interpolates:
  assumes "0 \<le> m" "m \<le> 255" "0 \<le> a" "a \<le> 255" "0 \<le> b" "b \<le> 255"
  shows "blend m a b = round (of_int a + (of_int m / 255) * (of_int b - of_int a) :: rat)"
proof -
  have "(of_int a + (of_int m / 255) * (of_int b - of_int a) :: rat)
        = of_int (a * (255 - m) + b * m) / 255"
    by (simp add: field_simps)
  then have "round (of_int a + (of_int m / 255) * (of_int b - of_int a) :: rat)
        = (a * (255 - m) + b * m + 127) div 255"
    by (simp only: round_div_255)
  then show ?thesis using blend_round [OF assms] by simp
qed


section \<open>The gradient: claims\<close>

lemma py_range_0: "py_range 0 = []"
  by (simp add: py_range_def)

lemma py_range_4: "py_range 4 = [0, 1, 2, 3]"
  by (simp add: py_range_def upto.simps)

lemma mask_value_samples:
  "mask_value 0 4 = 0" "mask_value 1 4 = 63" "mask_value 2 4 = 127" "mask_value 3 4 = 191"
  "mask_value 0 1 = 0"
  by code_simp+

text \<open>
  Claim C9 says that a call with \<open>height = 0\<close> meets a division by zero. It does not: the
  division \<^verbatim>\<open>y / height\<close> stands in the body of the loop over \<^verbatim>\<open>range(height)\<close>, which has
  no iteration when \<open>height \<le> 0\<close>. With \<open>height = 0\<close> the result is a canvas of no rows.
\<close>

theorem create_gradient_height_0:
  "create_gradient 1024 0 (RGB 0 122 255) (RGB 88 86 214)
     = Inr \<lparr>im_mode = ''RGB'', im_width = 1024, im_height = 0, im_data = []\<rparr>"
  by (simp add: create_gradient_eq py_range_0)

text \<open>
  Claim C9, as the code has it: called with \<open>height = 0\<close>, \<^verbatim>\<open>create_gradient\<close> meets no
  division by zero, and it meets none for any other width and height either: whatever
  the call returns or raises, it is not a \<^verbatim>\<open>ZeroDivisionError\<close>.
\<close>

theorem create_gradient_never_divides_by_zero:
  "create_gradient w h c1 c2 \<noteq> Inl (Exn ZeroDivisionError msg)"
proof (cases "w < 0 \<or> h < 0")
  case True
  then show ?thesis
    by (auto simp add: create_gradient_def Image_new_def)
next
  case False
  then have "0 \<le> w" and "0 \<le> h" by simp_all
  then show ?thesis by (simp add: create_gradient_eq)
qed

text \<open>
  Claim C2 says that for every height \<open>H > 0\<close> the last row has the end colour within 1 per
  channel. A canvas of one row refutes it: its only row, which is row \<open>H - 1\<close>, has the start
  colour.
\<close>

theorem gradient_one_row:
  "create_gradient 1 1 (RGB 0 0 0) (RGB 255 255 255)
     = Inr \<lparr>im_mode = ''RGB'', im_width = 1, im_height = 1, im_data = [(0, 0, 0)]\<rparr>"
proof -
  have "py_range 1 = [0]" by (simp add: py_range_def upto.simps)
  then show ?thesis
    by (simp add: create_gradient_eq mask_value_samples blend_rgb_def blend_def div255_def
        red_def green_def blue_def clip8_def)
qed

text \<open>
  Claim C2, as the code has it: for every width and height \<open>H > 0\<close> and all colours, row 0 has
  the start colour; row \<open>H - 1\<close> has the end colour within 1 per channel when \<open>H \<ge> 255\<close>.
  (The factor of row \<open>y\<close> is \<open>y / H\<close>, which stays away from 1 on a low canvas.)
\<close>

theorem gradient_first_and_last_row:
  assumes "0 < w" and "0 < h" and "0 \<le> x" and "x < w"
  shows "\<exists>img. create_gradient w h c1 c2 = Inr img
           \<and> pixel_at img (x, 0) = Some (getink c1)
           \<and> (255 \<le> h \<longrightarrow>
                (\<exists>p. pixel_at img (x, h - 1) = Some p
                   \<and> \<bar>red p - red (getink c2)\<bar> \<le> 1
                   \<and> \<bar>green p - green (getink c2)\<bar> \<le> 1
                   \<and> \<bar>blue p - blue (getink c2)\<bar> \<le> 1))"
proof -
  define f where "f y = blend_rgb (mask_value y h) (getink c1) (getink c2)" for y
  define img where "img = \<lparr>im_mode = ''RGB'', im_width = w, im_height = h,
      im_data = concat (map (\<lambda>y. replicate (nat w) (f y)) (py_range h))\<rparr>"
  have made: "create_gradient w h c1 c2 = Inr img"
    using assms by (simp add: create_gradient_eq img_def f_def)
  have "pixel_at img (x, 0) = Some (f 0)"
    unfolding img_def using assms by (intro gradient_pixel) simp_all
  then have first: "pixel_at img (x, 0) = Some (getink c1)"
    using assms(2) by (simp add: f_def mask_value_0 blend_rgb_0)
  have last: "\<exists>p. pixel_at img (x, h - 1) = Some p
                   \<and> \<bar>red p - red (getink c2)\<bar> \<le> 1
                   \<and> \<bar>green p - green (getink c2)\<bar> \<le> 1
                   \<and> \<bar>blue p - blue (getink c2)\<bar> \<le> 1" if big: "255 \<le> h"
  proof -
    have px: "pixel_at img (x, h - 1) = Some (f (h - 1))"
      unfolding img_def using assms by (intro gradient_pixel) simp_all
    have lo: "254 \<le> mask_value (h - 1) h" using big by (rule mask_value_last)
    have hi: "mask_value (h - 1) h \<le> 255"
      using assms(2) by (intro mask_value_range) simp_all
    have "\<bar>red (f (h - 1)) - red (getink c2)\<bar> \<le> 1"
      and "\<bar>green (f (h - 1)) - green (getink c2)\<bar> \<le> 1"
      and "\<bar>blue (f (h - 1)) - blue (getink c2)\<bar> \<le> 1"
      unfolding f_def blend_rgb_sel
      by (rule blend_near_end [OF lo hi]; rule getink_range)+
    with px show ?thesis by blast
  qed
  from made first last show ?thesis by blast
qed

theorem gradient_first_and_last_row_icon:
  "\<exists>img. create_gradient 1024 1024 (RGB 0 122 255) (RGB 88 86 214) = Inr img
         \<and> pixel_at img (5, 0) = Some (0, 122, 255)
         \<and> (\<exists>p. pixel_at img (5, 1023) = Some p
               \<and> \<bar>red p - 88\<bar> \<le> 1 \<and> \<bar>green p - 86\<bar> \<le> 1 \<and> \<bar>blue p - 214\<bar> \<le> 1)"
  using gradient_first_and_last_row [of 1024 1024 5 "RGB 0 122 255" "RGB 88 86 214"]
  by (simp add: clip8_def red_def green_def blue_def)

text \<open>
  Claim C3 says that every pixel is \<open>start + (y / height) * (end - start)\<close> rounded to the
  nearest integer. On a canvas of four rows from black to white, row 1 should then be
  \<open>round 63.75 = 64\<close>; the code gives 63, since it first cuts the factor down to the byte
  \<open>int(255 * 0.25) = 63\<close>.
\<close>

theorem gradient_four_rows:
  "create_gradient 1 4 (RGB 0 0 0) (RGB 255 255 255)
     = Inr \<lparr>im_mode = ''RGB'', im_width = 1, im_height = 4,
            im_data = [(0, 0, 0), (63, 63, 63), (127, 127, 127), (191, 191, 191)]\<rparr>
   \<and> spec_channel 0 255 1 4 = 64"
proof -
  have "spec_channel 0 255 1 4 = 64"
    by code_simp
  then show ?thesis
    by (simp add: create_gradient_eq py_range_4 mask_value_samples blend_rgb_def blend_def
        div255_def red_def green_def blue_def clip8_def)
qed

text \<open>
  Claim C3, as the code has it: for every row \<open>y\<close> in \<open>[0, height)\<close> and every column, the
  pixel is, per channel, \<open>start + (mask / 255) * (end - start)\<close> rounded to the nearest integer,
  where \<open>mask = int(255 * (y / height))\<close> is the mask byte of the row; so the colour is
  constant across each row, and the mask-and-paste code equals this formula.
\<close>

theorem gradient_pixel_formula:
  assumes "0 \<le> x" and "x < w" and "0 \<le> y" and "y < h"
  shows "\<exists>img. create_gradient w h c1 c2 = Inr img
           \<and> pixel_at img (x, y)
               = Some (code_channel (red (getink c1)) (red (getink c2)) y h,
                       code_channel (green (getink c1)) (green (getink c2)) y h,
                       code_channel (blue (getink c1)) (blue (getink c2)) y h)"
proof -
  define f where "f y = blend_rgb (mask_value y h) (getink c1) (getink c2)" for y
  define img where "img = \<lparr>im_mode = ''RGB'', im_width = w, im_height = h,
      im_data = concat (map (\<lambda>y. replicate (nat w) (f y)) (py_range h))\<rparr>"
  have made: "create_gradient w h c1 c2 = Inr img"
    using assms by (simp add: create_gradient_eq img_def f_def)
  have px: "pixel_at img (x, y) = Some (f y)"
    unfolding img_def using assms by (rule gradient_pixel)
  note m = mask_value_range [OF assms(3,4)]
  have "blend (mask_value y h) (red (getink c1)) (red (getink c2))
          = code_channel (red (getink c1)) (red (getink c2)) y h"
    and "blend (mask_value y h) (green (getink c1)) (green (getink c2))
          = code_channel (green (getink c1)) (green (getink c2)) y h"
    and "blend (mask_value y h) (blue (getink c1)) (blue (getink c2))
          = code_channel (blue (getink c1)) (blue (getink c2)) y h"
    unfolding code_channel_def
    by (rule blend_interpolates [OF m]; rule getink_range)+
  then have "f y = (code_channel (red (getink c1)) (red (getink c2)) y h,
                    code_channel (green (getink c1)) (green (getink c2)) y h,
                    code_channel (blue (getink c1)) (blue (getink c2)) y h)"
    by (simp add: f_def blend_rgb_def)
  with made px show ?thesis by simp
qed

theorem gradient_pixel_formula_icon:
  "\<exists>img. create_gradient 1024 1024 (RGB 0 122 255) (RGB 88 86 214) = Inr img
         \<and> pixel_at img (7, 512)
             = Some (code_channel 0 88 512 1024, code_channel 122 86 512 1024,
                     code_channel 255 214 512 1024)"
  using gradient_pixel_formula [of 7 1024 512 1024 "RGB 0 122 255" "RGB 88 86 214"]
  by (simp add: clip8_def red_def green_def blue_def)

text \<open>
  Claim C4: the gradient is monotonic per channel. Of two rows \<open>y \<le> y'\<close> of the canvas, row
  \<open>y'\<close> has, in every channel whose start value is at most its end value, a value at least
  that of row \<open>y\<close>, and in every channel whose start value is at least its end value, a
  value at most that of row \<open>y\<close>. Successive rows are the case \<open>y' = y + 1\<close>.
\<close>

theorem gradient_monotone:
  assumes "0 \<le> x" and "x < w" and "0 \<le> y" and "y \<le> y'" and "y' < h"
  shows "\<exists>img p p'. create_gradient w h c1 c2 = Inr img
           \<and> pixel_at img (x, y) = Some p \<and> pixel_at img (x, y') = Some p'
           \<and> (\<forall>ch\<in>{red, green, blue}.
                 (ch (getink c1) \<le> ch (getink c2) \<longrightarrow> ch p \<le> ch p')
               \<and> (ch (getink c2) \<le> ch (getink c1) \<longrightarrow> ch p' \<le> ch p))"
proof -
  define f where "f y = blend_rgb (mask_value y h) (getink c1) (getink c2)" for y
  define img where "img = \<lparr>im_mode = ''RGB'', im_width = w, im_height = h,
      im_data = concat (map (\<lambda>y. replicate (nat w) (f y)) (py_range h))\<rparr>"
  have made: "create_gradient w h c1 c2 = Inr img"
    using assms by (simp add: create_gradient_eq img_def f_def)
  have px: "pixel_at img (x, y) = Some (f y)"
    unfolding img_def using assms by (intro gradient_pixel) simp_all
  have px': "pixel_at img (x, y') = Some (f y')"
    unfolding img_def using assms by (intro gradient_pixel) simp_all
  have m: "mask_value y h \<le> mask_value y' h"
    using assms by (intro mask_value_mono) simp_all
  have "\<forall>ch\<in>{red, green, blue}.
          (ch (getink c1) \<le> ch (getink c2) \<longrightarrow> ch (f y) \<le> ch (f y'))
        \<and> (ch (getink c2) \<le> ch (getink c1) \<longrightarrow> ch (f y') \<le> ch (f y))"
    using m by (simp add: f_def blend_mono_up blend_mono_down)
  with made px px' show ?thesis by blast
qed

theorem gradient_monotone_icon:
  "\<exists>img p p'. create_gradient 1024 1024 (RGB 0 122 255) (RGB 88 86 214) = Inr img
         \<and> pixel_at img (7, 100) = Some p \<and> pixel_at img (7, 101) = Some p'
         \<and> red p \<le> red p' \<and> green p' \<le> green p \<and> blue p' \<le> blue p"
  using gradient_monotone [of 7 1024 100 101 1024 "RGB 0 122 255" "RGB 88 86 214"]
  by (simp add: clip8_def red_def green_def blue_def)



section \<open>Drawing on a canvas\<close>

lemma paint_fields [simp]:
  "im_mode (paint im A ink) = im_mode im"
  "im_width (paint im A ink) = im_width im"
  "im_height (paint im A ink) = im_height im"
  "length (im_data (paint im A ink)) = length (im_data im)"
  by (simp_all add: paint_def)

lemma draw_fields [simp]:
  "im_mode (draw R im c) = im_mode im"
  "im_width (draw R im c) = im_width im"
  "im_height (draw R im c) = im_height im"
  "length (im_data (draw R im c)) = length (im_data im)"
  by (induction R im c rule: draw.induct; simp add: Let_def)+

lemma foldl_draw_fields:
  "im_mode (foldl (draw R) im cs) = im_mode im
   \<and> im_width (foldl (draw R) im cs) = im_width im
   \<and> im_height (foldl (draw R) im cs) = im_height im
   \<and> length (im_data (foldl (draw R) im cs)) = length (im_data im)"
  by (induction cs arbitrary: im) simp_all

lemma pixel_index:
  fixes x y w h :: int
  assumes "0 \<le> x" "x < w" "0 \<le> y" "y < h"
  shows "nat (y * w + x) < nat (w * h)"
    and "0 \<le> y * w + x"
    and "(y * w + x) mod w = x"
    and "(y * w + x) div w = y"
proof -
  have nn: "0 \<le> y * w + x" using assms by simp
  have "y * w + x < y * w + w" using assms by simp
  also have "\<dots> = (y + 1) * w" by (simp add: algebra_simps)
  also have "\<dots> \<le> h * w" using assms by (intro mult_right_mono) simp_all
  finally have "y * w + x < w * h" by (simp add: mult.commute)
  then show "nat (y * w + x) < nat (w * h)" using nn by simp
  show "0 \<le> y * w + x" by (rule nn)
  show "(y * w + x) mod w = x" using assms by simp
  show "(y * w + x) div w = y" using assms by simp
qed

lemma pixel_at_paint:
  assumes "0 \<le> x" "x < im_width im" "0 \<le> y" "y < im_height im"
    and "length (im_data im) = nat (im_width im * im_height im)"
  shows "pixel_at (paint im A ink) (x, y)
         = (if (x, y) \<in> A then Some ink else pixel_at im (x, y))"
proof -
  note i = pixel_index [OF assms(1-4)]
  have len: "nat (y * im_width im + x) < length (im_data im)"
    using i(1) assms(5) by simp
  have "im_data (paint im A ink) ! nat (y * im_width im + x)
        = (if (x, y) \<in> A then ink else im_data im ! nat (y * im_width im + x))"
    using len assms(1,2) by (simp add: paint_def i(2,3,4))
  then show ?thesis using assms(1-4) len by (simp add: pixel_at_def)
qed

section \<open>The icon: claims\<close>

lemma icon_numbers:
  "center = 512" "circle_radius = 341" "inner_radius = 170" "corner_offset = 421"
  by (simp_all add: center_def circle_radius_def inner_radius_def corner_offset_def icon_size_def)

lemma icon_gradient:
  "\<exists>g. create_gradient icon_size icon_size color1 color2 = Inr g
       \<and> im_mode g = ''RGB'' \<and> im_width g = 1024 \<and> im_height g = 1024
       \<and> length (im_data g) = 1024 * 1024"
  by (simp add: create_gradient_eq icon_size_def length_rows py_range_length)

text \<open>
  Claim C10: every drawing operation keeps the size and the mode of the canvas. After any
  number \<open>n\<close> of the ten drawing calls of \<^verbatim>\<open>create_app_icon\<close>, in their order, the canvas that
  \<^verbatim>\<open>create_gradient\<close> returned is 1024 by 1024 pixels in mode \<^verbatim>\<open>RGB\<close>, with all its
  \<open>1024 * 1024\<close> pixels; \<open>n = 10\<close> is the canvas that is saved.
\<close>

theorem canvas_stays_1024_rgb:
  "\<exists>g. create_gradient icon_size icon_size color1 color2 = Inr g
       \<and> im_mode (foldl (draw R) g (take n (lens_calls @ corner_calls))) = ''RGB''
       \<and> im_width (foldl (draw R) g (take n (lens_calls @ corner_calls))) = 1024
       \<and> im_height (foldl (draw R) g (take n (lens_calls @ corner_calls))) = 1024
       \<and> length (im_data (foldl (draw R) g (take n (lens_calls @ corner_calls)))) = 1024 * 1024"
proof -
  from icon_gradient obtain g where g: "create_gradient icon_size icon_size color1 color2 = Inr g"
    "im_mode g = ''RGB''" "im_width g = 1024" "im_height g = 1024"
    "length (im_data g) = 1024 * 1024"
    by blast
  show ?thesis
    using g foldl_draw_fields [of R g "take n (lens_calls @ corner_calls)"] by auto
qed

text \<open>
  Claim C6: the fill of the outer lens disc is the RGBA colour \<open>(255, 255, 255, 230)\<close> on an
  \<^verbatim>\<open>RGB\<close> canvas, and its alpha has no visible effect. Whatever the 1024 by 1024 canvas holds
  underneath, after the call every pixel of the filled area that the outline does not
  cover is \<open>(255, 255, 255)\<close>, and the canvas is the one that the same call with the fill
  \<open>(255, 255, 255)\<close> gives.
\<close>

theorem lens_fill_ignores_alpha:
  assumes "im_width im = icon_size" and "im_height im = icon_size"
    and "length (im_data im) = nat (icon_size * icon_size)"
    and "0 \<le> x" and "x < icon_size" and "0 \<le> y" and "y < icon_size"
    and "(x, y) \<in> ellipse_area R (center - circle_radius, center - circle_radius,
                                    center + circle_radius, center + circle_radius)"
    and "(x, y) \<notin> ellipse_ring R (center - circle_radius, center - circle_radius,
                                    center + circle_radius, center + circle_radius) 1"
  shows "pixel_at (draw R im lens_disc) (x, y) = Some (255, 255, 255)
       \<and> draw R im lens_disc
           = draw R im (Ellipse (center - circle_radius, center - circle_radius,
                                 center + circle_radius, center + circle_radius)
                          (Some (RGB 255 255 255)) (Some (RGB 240 240 240)) 1)"
proof -
  define box where "box = (center - circle_radius, center - circle_radius,
                           center + circle_radius, center + circle_radius)"
  define im' where "im' = paint im (ellipse_area R box) (255, 255, 255)"
  have d: "draw R im lens_disc = paint im' (ellipse_ring R box 1) (240, 240, 240)"
    by (simp add: lens_disc_def Let_def clip8_def im'_def box_def)
  have d': "draw R im (Ellipse box (Some (RGB 255 255 255)) (Some (RGB 240 240 240)) 1)
            = paint im' (ellipse_ring R box 1) (240, 240, 240)"
    by (simp add: Let_def clip8_def im'_def)
  have "pixel_at (paint im' (ellipse_ring R box 1) (240, 240, 240)) (x, y) = pixel_at im' (x, y)"
    using assms by (subst pixel_at_paint) (simp_all add: im'_def box_def)
  also have "\<dots> = Some (255, 255, 255)"
    unfolding im'_def using assms by (subst pixel_at_paint) (simp_all add: box_def)
  finally show ?thesis using d d' by (simp add: box_def)
qed

theorem lens_fill_ignores_alpha_centre:
  "pixel_at (draw exact_rasteriser
       \<lparr>im_mode = ''RGB'', im_width = 1024, im_height = 1024,
        im_data = replicate (1024 * 1024) (0, 122, 255)\<rparr> lens_disc) (512, 512)
     = Some (255, 255, 255)"
proof -
  have "(512, 512) \<in> ellipse_area exact_rasteriser (171, 171, 853, 853)"
    by (simp add: exact_rasteriser_def in_ellipse_def)
  moreover have "(512, 512) \<notin> ellipse_ring exact_rasteriser (171, 171, 853, 853) 1"
    by (simp add: exact_rasteriser_def in_ellipse_def)
  ultimately have "pixel_at (draw exact_rasteriser
       \<lparr>im_mode = ''RGB'', im_width = 1024, im_height = 1024,
        im_data = replicate (1024 * 1024) (0, 122, 255)\<rparr> lens_disc) (512, 512)
     = Some (255, 255, 255)
     \<and> draw exact_rasteriser
       \<lparr>im_mode = ''RGB'', im_width = 1024, im_height = 1024,
        im_data = replicate (1024 * 1024) (0, 122, 255)\<rparr> lens_disc
         = draw exact_rasteriser
       \<lparr>im_mode = ''RGB'', im_width = 1024, im_height = 1024,
        im_data = replicate (1024 * 1024) (0, 122, 255)\<rparr>
             (Ellipse (center - circle_radius, center - circle_radius,
                                 center + circle_radius, center + circle_radius)
                          (Some (RGB 255 255 255)) (Some (RGB 240 240 240)) 1)"
    by (intro lens_fill_ignores_alpha) (simp_all add: icon_numbers icon_size_def)
  then show ?thesis by (rule conjunct1)
qed



section \<open>The viewfinder corners\<close>

lemma top_left_area:
  "painted R top_left = {91..151} \<times> {84..98} \<union> {84..98} \<times> {91..151}"
  by (simp add: painted_def top_left_def line_area_def icon_numbers corner_size_def
      corner_width_def Let_def)

lemma top_right_area:
  "painted R top_right = {873..933} \<times> {84..98} \<union> {926..940} \<times> {91..151}"
  by (simp add: painted_def top_right_def line_area_def icon_numbers corner_size_def
      corner_width_def Let_def)

lemma bottom_left_area:
  "painted R bottom_left = {91..151} \<times> {926..940} \<union> {84..98} \<times> {873..933}"
  by (simp add: painted_def bottom_left_def line_area_def icon_numbers corner_size_def
      corner_width_def Let_def)

lemma bottom_right_area:
  "painted R bottom_right = {873..933} \<times> {926..940} \<union> {926..940} \<times> {873..933}"
  by (simp add: painted_def bottom_right_def line_area_def icon_numbers corner_size_def
      corner_width_def Let_def)

lemma reflect_col_box:
  "reflect_col c ` ({a..b} \<times> {d..e}) = {2 * c - b..2 * c - a} \<times> {d..e}"
proof (rule set_eqI)
  fix p :: point
  obtain x y where p: "p = (x, y)" by (cases p)
  show "p \<in> reflect_col c ` ({a..b} \<times> {d..e}) \<longleftrightarrow> p \<in> {2 * c - b..2 * c - a} \<times> {d..e}"
  proof
    assume "p \<in> reflect_col c ` ({a..b} \<times> {d..e})"
    then show "p \<in> {2 * c - b..2 * c - a} \<times> {d..e}"
      by (auto simp add: reflect_col_def)
  next
    assume "p \<in> {2 * c - b..2 * c - a} \<times> {d..e}"
    then have "(2 * c - x, y) \<in> {a..b} \<times> {d..e}" by (simp add: p)
    moreover have "p = reflect_col c (2 * c - x, y)" by (simp add: p reflect_col_def)
    ultimately show "p \<in> reflect_col c ` ({a..b} \<times> {d..e})" by (rule rev_image_eqI)
  qed
qed

lemma reflect_row_box:
  "reflect_row c ` ({a..b} \<times> {d..e}) = {a..b} \<times> {2 * c - e..2 * c - d}"
proof (rule set_eqI)
  fix p :: point
  obtain x y where p: "p = (x, y)" by (cases p)
  show "p \<in> reflect_row c ` ({a..b} \<times> {d..e}) \<longleftrightarrow> p \<in> {a..b} \<times> {2 * c - e..2 * c - d}"
  proof
    assume "p \<in> reflect_row c ` ({a..b} \<times> {d..e})"
    then show "p \<in> {a..b} \<times> {2 * c - e..2 * c - d}"
      by (auto simp add: reflect_row_def)
  next
    assume "p \<in> {a..b} \<times> {2 * c - e..2 * c - d}"
    then have "(x, 2 * c - y) \<in> {a..b} \<times> {d..e}" by (simp add: p)
    moreover have "p = reflect_row c (x, 2 * c - y)" by (simp add: p reflect_row_def)
    ultimately show "p \<in> reflect_row c ` ({a..b} \<times> {d..e})" by (rule rev_image_eqI)
  qed
qed

text \<open>
  Claim C5 says that mirroring the pixels of the top-left bracket in the centre lines of
  the 1024-pixel canvas gives exactly the pixels of the other brackets. The vertical centre
  line of a raster of 1024 columns lies between the columns 511 and 512, so the mirror
  image of column \<open>x\<close> is column \<open>1023 - x\<close>. The top-right bracket covers column 940; its
  mirror image, column 83, is outside the top-left bracket, which starts at column 84.
\<close>

theorem corners_off_the_centre_lines:
  "flip_h icon_size ` painted exact_rasteriser top_left \<noteq> painted exact_rasteriser top_right
   \<and> flip_v icon_size ` painted exact_rasteriser top_left \<noteq> painted exact_rasteriser bottom_left"
proof -
  have "(940, 91) \<in> painted exact_rasteriser top_right"
    by (simp add: top_right_area)
  moreover have "(940, 91) \<notin> flip_h icon_size ` painted exact_rasteriser top_left"
    by (auto simp add: top_left_area flip_h_def icon_size_def)
  moreover have "(91, 940) \<in> painted exact_rasteriser bottom_left"
    by (simp add: bottom_left_area)
  moreover have "(91, 940) \<notin> flip_v icon_size ` painted exact_rasteriser top_left"
    by (auto simp add: top_left_area flip_v_def icon_size_def)
  ultimately show ?thesis by metis
qed

text \<open>
  Claim C5, as the code has it: the four brackets are exact mirror images of one another in
  the pixel column and the pixel row with the number \<open>center = 512\<close>, from which the script
  measures its offsets: mirroring \<open>x\<close> to \<open>1024 - x\<close> takes the pixels of the top-left bracket
  exactly to those of the top-right one, mirroring \<open>y\<close> to \<open>1024 - y\<close> to those of the
  bottom-left one, both together to those of the bottom-right one, and likewise between the
  other brackets. (Column and row 512 are half a pixel right of and below the centre lines
  of the canvas.)
\<close>

theorem corners_mirror_in_center:
  "reflect_col center ` painted R top_left = painted R top_right
   \<and> reflect_row center ` painted R top_left = painted R bottom_left
   \<and> reflect_col center ` reflect_row center ` painted R top_left = painted R bottom_right
   \<and> reflect_row center ` painted R top_right = painted R bottom_right
   \<and> reflect_col center ` painted R bottom_left = painted R bottom_right
   \<and> reflect_col center ` reflect_row center ` painted R top_right = painted R bottom_left"
  by (simp add: top_left_area top_right_area bottom_left_area bottom_right_area
      image_Un reflect_col_box reflect_row_box icon_numbers Un_commute)

section \<open>The run of the script\<close>

lemma create_app_icon_saves:
  assumes "create_gradient icon_size icon_size color1 color2 = Inr g"
    and "save_fault w = None"
  shows "create_app_icon R w =
           (w\<lparr>files := (files w)(output_path \<mapsto> foldl (draw R) g (lens_calls @ corner_calls)),
              console := console w @
                [Print ''Creating gradient background...'',
                 Print ''Drawing camera lens circle...'',
                 Print ''Adding camera viewfinder corners...'',
                 Print (''Saving icon to '' @ output_path @ ''...''),
                 Print (check_mark @ '' App icon created successfully!''),
                 Print ''   Size: 1024x1024'',
                 Print (''   Location: '' @ output_path),
                 Print (CHR 0x0A # ''Next steps:''),
                 Print ''1. Open Xcode and verify the icon appears'',
                 Print ''2. Build the app to see it on simulator/device'',
                 Print ''3. Optionally upload to https://appicon.co to generate all sizes'']\<rparr>,
            Inr ())"
  using assms by (simp add: create_app_icon_def print_def Let_def)

lemma create_app_icon_fault:
  assumes "save_fault w = Some e"
  shows "create_app_icon R w =
           (w\<lparr>console := console w @
                [Print ''Creating gradient background...'',
                 Print ''Drawing camera lens circle...'',
                 Print ''Adding camera viewfinder corners...'',
                 Print (''Saving icon to '' @ output_path @ ''...'')]\<rparr>,
            Inl e)"
proof -
  from icon_gradient obtain g where "create_gradient icon_size icon_size color1 color2 = Inr g"
    by blast
  with assms show ?thesis by (simp add: create_app_icon_def print_def Let_def)
qed

text \<open>
  Claim C8 says that any exception raised inside \<^verbatim>\<open>create_app_icon\<close>, other than
  \<^verbatim>\<open>ImportError\<close>, is caught at the top level. The clause \<^verbatim>\<open>except Exception\<close> does not
  catch a \<^verbatim>\<open>KeyboardInterrupt\<close>: raised while the file is being saved, it leaves the
  script uncaught, after the four progress lines.
\<close>

theorem keyboard_interrupt_is_not_caught:
  "run_script exact_rasteriser
     \<lparr>pil_installed = True, save_fault = Some (Exn KeyboardInterrupt []),
      files = Map.empty, console = []\<rparr>
   = Uncaught (Exn KeyboardInterrupt [])
       \<lparr>pil_installed = True, save_fault = Some (Exn KeyboardInterrupt []),
        files = Map.empty,
        console = [Print ''Creating gradient background...'',
                   Print ''Drawing camera lens circle...'',
                   Print ''Adding camera viewfinder corners...'',
                   Print (''Saving icon to '' @ output_path @ ''...'')]\<rparr>"
  by (simp add: run_script_def main_block_def create_app_icon_fault)

text \<open>
  Claim C8, as the code has it: any exception raised inside \<^verbatim>\<open>create_app_icon\<close> that is an
  instance of \<^verbatim>\<open>Exception\<close> and not of \<^verbatim>\<open>ImportError\<close> (an unwritable output path, for one)
  is caught by the top-level handler: the line with the text of the exception is printed,
  then its traceback, and the run ends normally, with nothing else changed.
\<close>

theorem other_exceptions_are_reported:
  assumes "pil_installed w" and "create_app_icon R w = (w', Inl e)"
    and "is_Exception (exc_cls e)" and "\<not> is_ImportError (exc_cls e)"
  shows "run_script R w
         = Finished (w'\<lparr>console := console w' @
                        [Print (cross_mark @ '' Error creating icon: '' @ exc_msg e),
                         Traceback e]\<rparr>)"
  using assms by (simp add: run_script_def main_block_def print_def print_exc_def)

theorem missing_directory_is_reported:
  "run_script exact_rasteriser
     \<lparr>pil_installed = True,
      save_fault = Some (Exn FileNotFoundError ''[Errno 2] No such file or directory''),
      files = Map.empty, console = []\<rparr>
   = Finished
       \<lparr>pil_installed = True,
        save_fault = Some (Exn FileNotFoundError ''[Errno 2] No such file or directory''),
        files = Map.empty,
        console = [Print ''Creating gradient background...'',
                   Print ''Drawing camera lens circle...'',
                   Print ''Adding camera viewfinder corners...'',
                   Print (''Saving icon to '' @ output_path @ ''...''),
                   Print (cross_mark @ '' Error creating icon: ''
                            @ ''[Errno 2] No such file or directory''),
                   Traceback (Exn FileNotFoundError ''[Errno 2] No such file or directory'')]\<rparr>"
proof -
  define w where "w = \<lparr>pil_installed = True,
      save_fault = Some (Exn FileNotFoundError ''[Errno 2] No such file or directory''),
      files = Map.empty, console = []\<rparr>"
  have body: "create_app_icon exact_rasteriser w =
           (w\<lparr>console := console w @
                [Print ''Creating gradient background...'',
                 Print ''Drawing camera lens circle...'',
                 Print ''Adding camera viewfinder corners...'',
                 Print (''Saving icon to '' @ output_path @ ''...'')]\<rparr>,
            Inl (Exn FileNotFoundError ''[Errno 2] No such file or directory''))"
    by (rule create_app_icon_fault) (simp add: w_def)
  have "pil_installed w" by (simp add: w_def)
  from other_exceptions_are_reported [OF this body]
  show ?thesis by (simp add: w_def)
qed

text \<open>
  Claim C1 says that without Pillow the run prints the install message, the
  \<^verbatim>\<open>ImportError\<close> being caught by the top-level handler. The code does not do that: the
  import stands at the top of the module, before and outside the \<^verbatim>\<open>try\<close>, so the error
  goes uncaught and nothing is printed.
\<close>

theorem missing_pillow_is_not_caught:
  "run_script exact_rasteriser
     \<lparr>pil_installed = False, save_fault = None, files = Map.empty, console = []\<rparr>
   = Uncaught (Exn ModuleNotFoundError (''No module named '' @ [CHR 0x27] @ ''PIL'' @ [CHR 0x27]))
       \<lparr>pil_installed = False, save_fault = None, files = Map.empty, console = []\<rparr>"
  by (simp add: run_script_def)


end
